theory Spec2Isabelle
  imports Main "HOL-Library.Word"
begin

section \<open>The virtual file system, as seed.c sees it\<close>

text \<open>
  seed.c reads archive members through PhysicsFS. A \<^verbatim>\<open>PHYSFS_file *\<close> is modelled by the
  state the calls of seed.c can observe: the bytes from the read position to the end of the
  member, the outcome of the coming \<^verbatim>\<open>PHYSFS_read\<close> calls (\<open>True\<close>: that call fails and
  returns -1; an exhausted schedule means no further failure), whether \<^verbatim>\<open>PHYSFS_close\<close>
  fails, and the text \<^verbatim>\<open>PHYSFS_getLastError\<close> gives after a failure.
  Bytes are \<open>char\<close>s, a byte string is a \<open>string\<close>.
\<close>

record physfs_file =
  pending :: string
  read_faults :: "bool list"
  close_fails :: bool
  last_error :: string

text \<open>
  \<^verbatim>\<open>PHYSFS_read(handle, buffer, 1, objCount)\<close>: the result (-1 on failure, else the number
  of bytes delivered), the bytes written at the start of \<^verbatim>\<open>buffer\<close>, and the file afterwards.
\<close>

definition PHYSFS_read :: "physfs_file \<Rightarrow> nat \<Rightarrow> int \<times> string \<times> physfs_file" where
  "PHYSFS_read handle objCount =
     (case read_faults handle of
        True # later \<Rightarrow> (- 1, [], handle\<lparr>read_faults := later\<rparr>)
      | _ \<Rightarrow>
          (int (length (take objCount (pending handle))),
           take objCount (pending handle),
           handle\<lparr>pending := drop objCount (pending handle),
                  read_faults := tl (read_faults handle)\<rparr>))"

definition PHYSFS_eof :: "physfs_file \<Rightarrow> bool" where
  "PHYSFS_eof handle = (pending handle = [])"

text \<open>\<^verbatim>\<open>PHYSFS_close\<close> returns nonzero on success.\<close>

definition PHYSFS_close :: "physfs_file \<Rightarrow> bool" where
  "PHYSFS_close handle = (\<not> close_fails handle)"

section \<open>Lua values and errors\<close>

datatype cfunction = table_insert | physfs_searcher | seed_loadfile

datatype lua_value =
    LNil
  | LBoolean bool
  | LNumber int
  | LString string
  | LCFunction cfunction
  | LTable nat

text \<open>
  \<^verbatim>\<open>luaL_error\<close> and \<^verbatim>\<open>luaL_argerror\<close> do not return: they unwind to the caller's
  protected call. A C function of the module therefore yields either the raised error or
  the values it pushed as results. \<open>LuaError msg\<close> is \<^verbatim>\<open>luaL_error\<close> with the formatted
  message \<open>msg\<close> (raised from a C function, it gets no position prefix);
  \<open>ArgError narg extramsg\<close> is \<^verbatim>\<open>luaL_argerror(L, narg, extramsg)\<close>, whose final text
  also names the called function as the call site knows it; \<open>AssertionFailure\<close> is a
  failed \<^verbatim>\<open>assert\<close>. \<open>Unmodelled\<close> marks a call to which this model gives no meaning.
\<close>

datatype lua_error = LuaError string | ArgError nat string | AssertionFailure | Unmodelled string

text \<open>\<^verbatim>\<open>luaL_typename\<close>: the type name that error messages show.\<close>

fun luaL_typename :: "lua_value \<Rightarrow> string" where
  "luaL_typename LNil = ''nil''"
| "luaL_typename (LBoolean b) = ''boolean''"
| "luaL_typename (LNumber n) = ''number''"
| "luaL_typename (LString s) = ''string''"
| "luaL_typename (LCFunction f) = ''function''"
| "luaL_typename (LTable r) = ''table''"

text \<open>A \<^verbatim>\<open>const char *\<close> taken from a Lua string ends at its first NUL byte.\<close>

definition c_str :: "string \<Rightarrow> string" where
  "c_str s = takeWhile (\<lambda>c. c \<noteq> CHR 0x00) s"

type_synonym lua_results = "lua_error + lua_value list"

section \<open>The chunk reader\<close>

text \<open>
  \<^verbatim>\<open>struct reader_data\<close>: \<open>buffer\<close> holds the bytes of \<^verbatim>\<open>char buffer[LUAL_BUFFERSIZE]\<close>,
  so its length is the declared capacity; \<open>rd_file\<close> is the member \<^verbatim>\<open>file\<close>.
\<close>

record reader_data =
  buffer :: string
  rd_file :: physfs_file

text \<open>
  \<^verbatim>\<open>reader\<close> asks \<^verbatim>\<open>PHYSFS_read\<close> for \<^verbatim>\<open>BUFSIZ\<close> objects of size 1 (the count is a
  \<^verbatim>\<open>PHYSFS_uint32\<close>). \<^verbatim>\<open>BUFSIZ\<close> is the macro of the C library, a parameter here, as
  \<^verbatim>\<open>LUAL_BUFFERSIZE\<close> is. The delivered bytes overwrite the buffer from its start; bytes
  delivered beyond the capacity land behind the array, which shows as a longer \<open>buffer\<close>.
  The result is the raised error, or \<^verbatim>\<open>*size\<close> and the reader data afterwards.
\<close>

definition reader :: "nat \<Rightarrow> reader_data \<Rightarrow> lua_error + nat \<times> reader_data" where
  "reader BUFSIZ rd =
     (case PHYSFS_read (rd_file rd) (BUFSIZ mod 2 ^ 32) of
        (ret, buf, file') \<Rightarrow>
          if ret = - 1
          then Inl (LuaError (''error reading file: '' @ last_error (rd_file rd)))
          else Inr (nat (ret mod 2 ^ 64),
                    rd\<lparr>buffer := buf @ drop (length buf) (buffer rd), rd_file := file'\<rparr>))"

section \<open>The seed.file userdata\<close>

text \<open>The userdata holds one \<^verbatim>\<open>PHYSFS_file *\<close>; \<open>None\<close> is the NULL pointer.\<close>

type_synonym seed_file = "physfs_file option"

definition check_seed_open_file :: "seed_file \<Rightarrow> lua_error + physfs_file" where
  "check_seed_open_file ud =
     (case ud of
        None \<Rightarrow> Inl (LuaError ''attempt to use a closed file'')
      | Some file \<Rightarrow> Inr file)"

definition seed_file_close :: "seed_file \<Rightarrow> lua_results \<times> seed_file" where
  "seed_file_close ud =
     (case check_seed_open_file ud of
        Inl e \<Rightarrow> (Inl e, ud)
      | Inr file \<Rightarrow>
          if PHYSFS_close file
          then (Inr [LBoolean True], None)
          else (Inr [LNil, LString (last_error file)], ud))"

subsection \<open>read\_bytes\<close>

text \<open>
  The do-while loop of \<^verbatim>\<open>read_bytes\<close>. \<open>LUAL_BUFFERSIZE\<close> is the macro of the Lua
  configuration header, a parameter here. \<open>bytes\<close> is a \<^verbatim>\<open>PHYSFS_uint64\<close>, \<open>to_read\<close>
  a \<^verbatim>\<open>PHYSFS_uint32\<close>, \<open>read\<close> a \<^verbatim>\<open>PHYSFS_sint64\<close>; the unsigned arithmetic is
  written with its modulus. \<open>lbuf\<close> is what the \<^verbatim>\<open>luaL_Buffer\<close> has collected.
\<close>

lemma PHYSFS_read_advances:
  "PHYSFS_read f n = (r, buf, f') \<Longrightarrow> 0 < r \<Longrightarrow> length (pending f') < length (pending f)"
  by (auto simp: PHYSFS_read_def split: list.splits bool.splits)

function read_loop :: "nat \<Rightarrow> physfs_file \<Rightarrow> nat \<Rightarrow> string \<Rightarrow> string \<times> physfs_file" where
  "read_loop LUAL_BUFFERSIZE file bytes lbuf =
     (let to_read = (if LUAL_BUFFERSIZE mod 2 ^ 32 > bytes then bytes mod 2 ^ 32
                     else LUAL_BUFFERSIZE mod 2 ^ 32)
      in case PHYSFS_read file to_read of
           (read, buf, file') \<Rightarrow>
             if read > 0
             then (let lbuf' = lbuf @ buf;
                       bytes' = nat ((int bytes - read) mod 2 ^ 64)
                   in if bytes' > 0
                      then read_loop LUAL_BUFFERSIZE file' bytes' lbuf'
                      else (lbuf', file'))
             else (lbuf, file'))"
  by pat_completeness auto

termination
  by (relation "measure (\<lambda>(B, file, bytes, lbuf). length (pending file))")
     (auto dest: PHYSFS_read_advances [OF sym])

declare read_loop.simps [simp del]

definition read_bytes :: "nat \<Rightarrow> physfs_file \<Rightarrow> nat \<Rightarrow> lua_results \<times> physfs_file" where
  "read_bytes LUAL_BUFFERSIZE file bytes =
     (case read_loop LUAL_BUFFERSIZE file bytes [] of
        (lbuf, file') \<Rightarrow> (Inr [LString lbuf], file'))"

subsection \<open>seed\_file\_read\<close>

text \<open>
  The second argument of \<^verbatim>\<open>read\<close>. \<open>ArgNumber\<close> is an argument \<^verbatim>\<open>lua_isnumber\<close> accepts
  (a number, or a string that converts to one); it carries the value of the C variable
  \<^verbatim>\<open>int bytes\<close> after \<^verbatim>\<open>bytes = lua_tointeger(L, 2)\<close>, a 32-bit signed integer: for
  the call \<^verbatim>\<open>read(n)\<close> with an integral \<open>n\<close> that \<^verbatim>\<open>lua_Integer\<close> holds, this is
  \<open>word_of_int n\<close>, the low 32 bits of \<open>n\<close>. \<open>ArgOption\<close> is any other argument
  \<^verbatim>\<open>luaL_checkoption\<close> reads as a string: a string (\<open>Some\<close>) or an absent or nil
  argument (\<open>None\<close>). \<open>ArgOther t\<close> is an argument of any other type, \<open>t\<close> its type name.
\<close>

datatype read_arg = ArgNumber "32 word" | ArgOption "string option" | ArgOther string

text \<open>
  \<^verbatim>\<open>luaL_checkoption(L, 2, def, lst)\<close> with a default \<open>def\<close>: the index of the option in
  \<open>lst\<close>, or an argument error. The name is compared with \<^verbatim>\<open>strcmp\<close>, as a C string.
  \<^verbatim>\<open>LUA_QS\<close> puts the name between two apostrophes (\<open>CHR 0x27\<close>).
\<close>

fun index_of :: "string \<Rightarrow> string list \<Rightarrow> nat option" where
  "index_of name [] = None"
| "index_of name (x # xs) =
     (if x = name then Some 0 else map_option Suc (index_of name xs))"

definition luaL_checkoption :: "string option \<Rightarrow> string \<Rightarrow> string list \<Rightarrow> lua_error + nat" where
  "luaL_checkoption arg def lst =
     (let name = (case arg of None \<Rightarrow> def | Some s \<Rightarrow> c_str s)
      in case index_of name lst of
           Some i \<Rightarrow> Inr i
         | None \<Rightarrow> Inl (ArgError 2 (''invalid option '' @ [CHR 0x27] @ name @ [CHR 0x27])))"

text \<open>
  \<^verbatim>\<open>luaL_argcheck\<close> raises when its condition is false. At end of file the handle is left
  as it is and nil is pushed. The conversion of \<^verbatim>\<open>int bytes\<close> to the
  \<^verbatim>\<open>PHYSFS_uint64\<close> parameter is the reduction modulo \<open>2 ^ 64\<close>, as is that of \<open>-1\<close>.
  The branch \<^verbatim>\<open>else assert(0)\<close> aborts. An argument that is neither a number nor a
  string makes \<^verbatim>\<open>luaL_checkoption\<close> raise the type error of \<^verbatim>\<open>luaL_typerror\<close>.
\<close>

definition seed_file_read :: "nat \<Rightarrow> seed_file \<Rightarrow> read_arg \<Rightarrow> lua_results \<times> seed_file" where
  "seed_file_read LUAL_BUFFERSIZE ud arg =
     (case check_seed_open_file ud of
        Inl e \<Rightarrow> (Inl e, ud)
      | Inr file \<Rightarrow>
          (case arg of
             ArgNumber bytes \<Rightarrow>
               if \<not> (0 \<le> sint bytes)
               then (Inl (ArgError 2 ''negative number of bytes''), ud)
               else if PHYSFS_eof file
               then (Inr [LNil], ud)
               else (case read_bytes LUAL_BUFFERSIZE file (nat (sint bytes mod 2 ^ 64)) of
                       (res, file') \<Rightarrow> (res, Some file'))
           | ArgOption name \<Rightarrow>
               (case luaL_checkoption name ''*a'' [''*a''] of
                  Inl e \<Rightarrow> (Inl e, ud)
                | Inr mode \<Rightarrow>
                    if mode = 0
                    then (case read_bytes LUAL_BUFFERSIZE file (nat (- 1 mod 2 ^ 64)) of
                            (res, file') \<Rightarrow> (res, Some file'))
                    else (Inl AssertionFailure, ud))
           | ArgOther t \<Rightarrow> (Inl (ArgError 2 (''string expected, got '' @ t)), ud)))"

section \<open>Module paths\<close>

text \<open>
  \<^verbatim>\<open>strstr(haystack, needle)\<close>: the offset of the first occurrence of \<open>needle\<close>, or
  \<open>None\<close> for the NULL result.
\<close>

fun strstr :: "string \<Rightarrow> string \<Rightarrow> nat option" where
  "strstr [] needle = (if needle = [] then Some 0 else None)"
| "strstr (c # cs) needle =
     (if take (length needle) (c # cs) = needle then Some 0
      else map_option Suc (strstr cs needle))"

lemma strstr_bound: "strstr s p = Some k \<Longrightarrow> k + length p \<le> length s"
proof (induction s arbitrary: k)
  case Nil
  then show ?case by (simp split: if_splits)
next
  case (Cons c cs)
  show ?case
  proof (cases "take (length p) (c # cs) = p")
    case True
    then have "length (take (length p) (c # cs)) = length p"
      by simp
    then have "length p \<le> length (c # cs)"
      by (simp only: length_take)
    with True Cons.prems show ?thesis by simp
  next
    case False
    with Cons.prems obtain k' where "strstr cs p = Some k'" "k = Suc k'"
      by auto
    with Cons.IH [of k'] show ?thesis by simp
  qed
qed

text \<open>
  \<^verbatim>\<open>luaL_gsub(L, s, p, r)\<close> of the auxiliary library: while \<^verbatim>\<open>strstr\<close> finds \<open>p\<close>, the
  text before it and \<open>r\<close> are added to the buffer, and the scan goes on behind the
  occurrence. With an empty \<open>p\<close> the C loop never ends: \<open>None\<close>.
\<close>

function luaL_gsub :: "string \<Rightarrow> string \<Rightarrow> string \<Rightarrow> string option" where
  "luaL_gsub s p r =
     (if p = [] then None
      else case strstr s p of
             None \<Rightarrow> Some s
           | Some wild \<Rightarrow>
               map_option (\<lambda>b. take wild s @ r @ b) (luaL_gsub (drop (wild + length p) s) p r))"
  by pat_completeness auto
termination
proof (relation "measure (\<lambda>(s, p, r). length s)")
  show "wf (measure (\<lambda>(s, p, r). length s))" by simp
next
  fix s p r :: string and wild
  assume "p \<noteq> []" and "strstr s p = Some wild"
  then obtain n where "wild + length p \<le> length s" "length p = Suc n"
    by (cases p) (auto dest: strstr_bound)
  then show "((drop (wild + length p) s, p, r), (s, p, r)) \<in> measure (\<lambda>(s, p, r). length s)"
    by simp
qed

declare luaL_gsub.simps [simp del]

text \<open>
  \<^verbatim>\<open>to_filename\<close>: \<open>module\<close> is the Lua string at the index; \<^verbatim>\<open>luaL_checkstring\<close> hands
  it over as a C string. \<^verbatim>\<open>lua_concat(L, 3)\<close> joins the three strings pushed.
\<close>

definition to_filename :: "string \<Rightarrow> string option" where
  "to_filename module =
     map_option (\<lambda>g. ''/'' @ g @ ''.lua'') (luaL_gsub (c_str module) ''.'' ''/'')"

section \<open>The Lua state of the resolver registration\<close>

text \<open>
  \<^verbatim>\<open>init_physfs_loader\<close> works on the Lua stack. The state holds that stack (bottom
  first), the global variables, and the tables, which stack slots and fields refer to by
  address (\<open>LTable r\<close>). A table has string-keyed fields and a sequence
  \<open>t[1], ..., t[n]\<close>; metatables are left out. Indexing or calling a value of the wrong
  type raises the Lua error. A stack index out of range and a reference to no table have
  no meaning in the C API either: \<open>Unmodelled\<close>.
\<close>

record lua_table =
  hash_part :: "(string \<times> lua_value) list"
  array_part :: "lua_value list"

record lua_State =
  stack :: "lua_value list"
  globals :: "(string \<times> lua_value) list"
  heap :: "nat \<Rightarrow> lua_table option"

type_synonym lua_op = "lua_State \<Rightarrow> lua_error + lua_State"

text \<open>A positive index counts from the bottom of the stack, a negative one from its top.\<close>

definition index2adr :: "lua_State \<Rightarrow> int \<Rightarrow> nat option" where
  "index2adr L idx =
     (if 0 < idx \<and> idx \<le> int (length (stack L)) then Some (nat (idx - 1))
      else if idx < 0 \<and> - idx \<le> int (length (stack L))
      then Some (nat (int (length (stack L)) + idx))
      else None)"

definition push :: "lua_value \<Rightarrow> lua_op" where
  "push v L = Inr (L\<lparr>stack := stack L @ [v]\<rparr>)"

definition field_of :: "(string \<times> lua_value) list \<Rightarrow> string \<Rightarrow> lua_value" where
  "field_of kvs k = (case map_of kvs k of Some v \<Rightarrow> v | None \<Rightarrow> LNil)"

definition lua_getglobal :: "string \<Rightarrow> lua_op" where
  "lua_getglobal name L = push (field_of (globals L) name) L"

definition lua_getfield :: "int \<Rightarrow> string \<Rightarrow> lua_op" where
  "lua_getfield idx k L =
     (case index2adr L idx of
        None \<Rightarrow> Inl (Unmodelled ''stack index'')
      | Some i \<Rightarrow>
          (case stack L ! i of
             LTable r \<Rightarrow>
               (case heap L r of
                  Some t \<Rightarrow> push (field_of (hash_part t) k) L
                | None \<Rightarrow> Inl (Unmodelled ''table reference''))
           | v \<Rightarrow> Inl (LuaError (''attempt to index a '' @ luaL_typename v @ '' value''))))"

definition lua_remove :: "int \<Rightarrow> lua_op" where
  "lua_remove idx L =
     (case index2adr L idx of
        None \<Rightarrow> Inl (Unmodelled ''stack index'')
      | Some i \<Rightarrow> Inr (L\<lparr>stack := take i (stack L) @ drop (Suc i) (stack L)\<rparr>))"

definition lua_pushvalue :: "int \<Rightarrow> lua_op" where
  "lua_pushvalue idx L =
     (case index2adr L idx of
        None \<Rightarrow> Inl (Unmodelled ''stack index'')
      | Some i \<Rightarrow> push (stack L ! i) L)"

definition lua_pushnumber :: "int \<Rightarrow> lua_op" where
  "lua_pushnumber n L = push (LNumber n) L"

definition lua_pushcfunction :: "cfunction \<Rightarrow> lua_op" where
  "lua_pushcfunction f L = push (LCFunction f) L"

definition lua_pop :: "nat \<Rightarrow> lua_op" where
  "lua_pop n L =
     (if n \<le> length (stack L) then Inr (L\<lparr>stack := take (length (stack L) - n) (stack L)\<rparr>)
      else Inl (Unmodelled ''stack index''))"

text \<open>
  \<^verbatim>\<open>table.insert\<close> of the Lua 5.1 library on the sequence of a table. With two
  arguments the value goes behind the last element. With three, \<open>e\<close> is the first empty
  position or \<open>pos\<close>, whichever is larger, the elements from \<open>pos\<close> on move up by one
  and the value is stored at \<open>pos\<close>; positions left open between the old end and \<open>pos\<close>
  hold nil. A position below 1 lies outside the sequence, and a position given as a
  string would be converted to a number: both are left without a meaning here.
\<close>

definition insert_at :: "lua_value list \<Rightarrow> nat \<Rightarrow> lua_value \<Rightarrow> lua_value list" where
  "insert_at a pos v =
     (let padded = a @ replicate (pos - 1 - length a) LNil
      in take (pos - 1) padded @ [v] @ drop (pos - 1) padded)"

definition tinsert :: "lua_value list \<Rightarrow> lua_State \<Rightarrow> lua_error + lua_value list \<times> lua_State" where
  "tinsert args L =
     (case args of
        [] \<Rightarrow> Inl (ArgError 1 ''table expected, got no value'')
      | LTable r # rest \<Rightarrow>
          (case heap L r of
             None \<Rightarrow> Inl (Unmodelled ''table reference'')
           | Some t \<Rightarrow>
               (case rest of
                  [v] \<Rightarrow>
                    Inr ([], L\<lparr>heap := (heap L)(r \<mapsto> t\<lparr>array_part := array_part t @ [v]\<rparr>)\<rparr>)
                | [LNumber pos, v] \<Rightarrow>
                    if 1 \<le> pos
                    then Inr ([], L\<lparr>heap := (heap L)
                                 (r \<mapsto> t\<lparr>array_part := insert_at (array_part t) (nat pos) v\<rparr>)\<rparr>)
                    else Inl (Unmodelled ''insert position below 1'')
                | [LString p, v] \<Rightarrow> Inl (Unmodelled ''insert position given as a string'')
                | [p, v] \<Rightarrow> Inl (ArgError 2 (''number expected, got '' @ luaL_typename p))
                | _ \<Rightarrow>
                    Inl (LuaError (''wrong number of arguments to '' @
                                   [CHR 0x27] @ ''insert'' @ [CHR 0x27]))))
      | a # rest \<Rightarrow> Inl (ArgError 1 (''table expected, got '' @ luaL_typename a)))"

text \<open>
  \<^verbatim>\<open>lua_call(L, nargs, nresults)\<close>: the function lies below its \<open>nargs\<close> arguments; all
  are popped and \<open>nresults\<close> results pushed. Of the C functions only \<^verbatim>\<open>table.insert\<close>
  is given a body here.
\<close>

definition lua_call :: "nat \<Rightarrow> nat \<Rightarrow> lua_op" where
  "lua_call nargs nresults L =
     (if length (stack L) < Suc nargs then Inl (Unmodelled ''stack index'')
      else
        let base = length (stack L) - Suc nargs;
            func = stack L ! base;
            args = drop (Suc base) (stack L);
            L0 = L\<lparr>stack := take base (stack L)\<rparr>
        in case func of
             LCFunction f \<Rightarrow>
               (if f = table_insert
                then (case tinsert args L0 of
                        Inl e \<Rightarrow> Inl e
                      | Inr (results, L1) \<Rightarrow>
                          Inr (L1\<lparr>stack := stack L1 @
                                   take nresults (results @ replicate nresults LNil)\<rparr>))
                else Inl (Unmodelled ''function body''))
           | v \<Rightarrow> Inl (LuaError (''attempt to call a '' @ luaL_typename v @ '' value'')))"

text \<open>A C function body is a sequence of API calls; the first error ends it.\<close>

fun run :: "lua_op list \<Rightarrow> lua_op" where
  "run [] L = Inr L"
| "run (op # ops) L = (case op L of Inl e \<Rightarrow> Inl e | Inr L' \<Rightarrow> run ops L')"

definition init_physfs_loader :: lua_op where
  "init_physfs_loader =
     run [lua_getglobal ''table'',
          lua_getfield (- 1) ''insert'',
          lua_remove (- 2),
          lua_getglobal ''package'',
          lua_getfield (- 1) ''loaders'',
          lua_remove (- 2),
          lua_pushvalue (- 2),
          lua_pushvalue (- 2),
          lua_pushnumber 2,
          lua_pushcfunction physfs_searcher,
          lua_call 3 0,
          lua_pop 2]"

section \<open>The main program\<close>

text \<open>
  What \<^verbatim>\<open>main\<close> asks of PhysicsFS: whether \<^verbatim>\<open>PHYSFS_init\<close> succeeds, the directory
  \<^verbatim>\<open>PHYSFS_getBaseDir\<close> returns, the separator \<^verbatim>\<open>PHYSFS_getDirSeparator\<close> returns, and
  for which paths \<^verbatim>\<open>PHYSFS_mount(path, "/", 0)\<close> succeeds.
\<close>

record physfs_env =
  init_ok :: bool
  base_dir :: string
  dir_separator :: string
  mountable :: "string \<Rightarrow> bool"

text \<open>
  \<^verbatim>\<open>basename\<close>: the scan restarts one character behind each separator found and ends
  when \<^verbatim>\<open>strstr\<close> finds none. Only an empty separator at the end of the string would
  step behind the terminating NUL: \<open>None\<close>.
\<close>

function basename :: "string \<Rightarrow> string \<Rightarrow> string option" where
  "basename dirsep last_found =
     (case strstr last_found dirsep of
        None \<Rightarrow> Some last_found
      | Some sep \<Rightarrow>
          if sep < length last_found then basename dirsep (drop (Suc sep) last_found)
          else None)"
  by pat_completeness auto
termination
  by (relation "measure (\<lambda>(dirsep, last_found). length last_found)") auto

declare basename.simps [simp del]

text \<open>
  The loop that fills the global table \<^verbatim>\<open>arg\<close>:
  \<^verbatim>\<open>for (i = 0; i < argc; i++) arg[i - skip_arg + 1] = argv[i]\<close>.
\<close>

function arg_loop ::
  "string list \<Rightarrow> int \<Rightarrow> nat \<Rightarrow> (int \<Rightarrow> string option) \<Rightarrow> (int \<Rightarrow> string option)" where
  "arg_loop argv skip_arg i arg =
     (if i < length argv
      then arg_loop argv skip_arg (Suc i) (arg(int i - skip_arg + 1 \<mapsto> argv ! i))
      else arg)"
  by pat_completeness auto
termination
  by (relation "measure (\<lambda>(argv, skip_arg, i, arg). length argv - i)") auto

declare arg_loop.simps [simp del]

text \<open>
  The loop that pushes the arguments of the entry chunk:
  \<^verbatim>\<open>for (i = 1; i <= argc - skip_arg; i++) lua_pushstring(L, argv[i + skip_arg - 1])\<close>.
  An index outside \<open>argv\<close> has no string to push: \<open>None\<close>.
\<close>

function push_loop :: "string list \<Rightarrow> int \<Rightarrow> int \<Rightarrow> string list \<Rightarrow> string list option" where
  "push_loop argv skip_arg i pushed =
     (if i \<le> int (length argv) - skip_arg
      then (if 0 \<le> i + skip_arg - 1 \<and> i + skip_arg - 1 < int (length argv)
            then push_loop argv skip_arg (i + 1) (pushed @ [argv ! nat (i + skip_arg - 1)])
            else None)
      else Some pushed)"
  by pat_completeness auto
termination
  by (relation "measure (\<lambda>(argv, skip_arg, i, pushed). nat (int (length argv) - skip_arg - i + 1))")
     auto

declare push_loop.simps [simp del]

text \<open>
  \<^verbatim>\<open>main\<close> up to the call of the entry chunk. It ends early with an exit code, or it
  hands over to \<^verbatim>\<open>init.lua\<close>: \<open>mounted\<close> is the archive mounted at the root, \<open>arg_table\<close> the
  global table \<^verbatim>\<open>arg\<close>, \<open>forwarded\<close> the arguments pushed for the chunk, in order (the chunk sees
  them as its arguments 1, 2, ...; they are pushed once the chunk is loaded). With an empty
  \<open>argv\<close>, \<^verbatim>\<open>argv[0]\<close> is no string for \<^verbatim>\<open>basename\<close> to scan.
\<close>

record boot =
  mounted :: string
  skip_arg :: int
  arg_table :: "int \<Rightarrow> string option"
  forwarded :: "string list"

datatype startup = Exit int | Undefined_behaviour | Run boot

definition main :: "physfs_env \<Rightarrow> string list \<Rightarrow> startup" where
  "main env argv =
     (if \<not> init_ok env then Exit 1
      else
        (case argv of
           [] \<Rightarrow> Undefined_behaviour
         | argv0 # rest \<Rightarrow>
             (case basename (dir_separator env) argv0 of
                None \<Rightarrow> Undefined_behaviour
              | Some executable \<Rightarrow>
                  let path = base_dir env @ executable;
                      self = mountable env path;
                      skip = (if self then 1 else 1 + 1)
                  in if \<not> self \<and> (length argv < 2 \<or> \<not> mountable env (argv ! 1))
                     then Exit 1
                     else
                       (case push_loop argv skip 1 [] of
                          None \<Rightarrow> Undefined_behaviour
                        | Some pushed \<Rightarrow>
                            Run \<lparr>mounted = (if self then path else argv ! 1),
                                 skip_arg = skip,
                                 arg_table = arg_loop argv skip 0 Map.empty,
                                 forwarded = pushed\<rparr>))))"

section \<open>The read loop\<close>

lemma PHYSFS_read_at_eof:
  "pending f = [] \<Longrightarrow> fst (PHYSFS_read f n) \<le> 0 \<and> pending (snd (snd (PHYSFS_read f n))) = []"
  by (auto simp: PHYSFS_read_def split: list.splits bool.splits)

lemma read_loop_at_eof:
  assumes "pending f = []"
  shows "fst (read_loop B f bytes lbuf) = lbuf \<and> pending (snd (read_loop B f bytes lbuf)) = []"
proof -
  let ?n = "if bytes < B mod 2 ^ 32 then bytes mod 2 ^ 32 else B mod 2 ^ 32"
  obtain r buf f' where rd: "PHYSFS_read f ?n = (r, buf, f')"
    by (cases "PHYSFS_read f ?n") auto
  with PHYSFS_read_at_eof [OF assms, of ?n] have "r \<le> 0" "pending f' = []"
    by simp_all
  with rd show ?thesis
    by (subst (1 2) read_loop.simps) (simp add: Let_def)
qed

lemma no_fault_read:
  "True \<notin> set (read_faults f) \<Longrightarrow>
   PHYSFS_read f n = (int (min n (length (pending f))), take n (pending f),
      f\<lparr>pending := drop n (pending f), read_faults := tl (read_faults f)\<rparr>)"
  by (auto simp: PHYSFS_read_def split: list.splits bool.splits)

lemma read_loop_step:
  assumes "n = (if bytes < B mod 2 ^ 32 then bytes mod 2 ^ 32 else B mod 2 ^ 32)"
    and "PHYSFS_read f n = (r, buf, f')"
    and "0 < r" and "nat ((int bytes - r) mod 2 ^ 64) = bytes'" and "0 < bytes'"
  shows "read_loop B f bytes lbuf = read_loop B f' bytes' (lbuf @ buf)"
proof -
  have "read_loop B f bytes lbuf =
      (case PHYSFS_read f n of
         (read, buf, file') \<Rightarrow>
           if read > 0
           then (if nat ((int bytes - read) mod 2 ^ 64) > 0
                 then read_loop B file' (nat ((int bytes - read) mod 2 ^ 64)) (lbuf @ buf)
                 else (lbuf @ buf, file'))
           else (lbuf, file'))"
    unfolding assms(1) by (subst read_loop.simps) (simp only: Let_def)
  then show ?thesis
    by (simp only: assms(2-5) prod.case if_True)
qed

lemma read_loop_short:
  assumes "0 < B mod 2 ^ 32" and "True \<notin> set (read_faults f)"
    and "length (pending f) < bytes" and "bytes < 2 ^ 64"
  shows "fst (read_loop B f bytes lbuf) = lbuf @ pending f \<and>
         pending (snd (read_loop B f bytes lbuf)) = []"
  using assms
proof (induction "length (pending f)" arbitrary: f bytes lbuf rule: less_induct)
  case less
  define n where "n = (if bytes < B mod 2 ^ 32 then bytes mod 2 ^ 32 else B mod 2 ^ 32)"
  define f' where "f' = f\<lparr>pending := drop n (pending f), read_faults := tl (read_faults f)\<rparr>"
  define r where "r = min n (length (pending f))"
  have n_pos: "0 < n" using less.prems(1,3) by (auto simp: n_def)
  have n_le: "n \<le> bytes" by (auto simp: n_def)
  have rd: "PHYSFS_read f n = (int r, take n (pending f), f')"
    unfolding r_def f'_def using less.prems(2) by (rule no_fault_read)
  show ?case
  proof (cases "pending f = []")
    case True
    then show ?thesis using read_loop_at_eof [of f B bytes lbuf] by simp
  next
    case False
    have r_pos: "0 < r" using n_pos False by (simp add: r_def)
    have r_le: "r \<le> bytes" "r \<le> length (pending f)" using n_le by (simp_all add: r_def)
    have diff: "int bytes - int r = int (bytes - r)" using r_le by simp
    have small: "int (bytes - r) mod 2 ^ 64 = int (bytes - r)"
      using less.prems(4) by (simp add: zmod_int)
    have b': "nat ((int bytes - int r) mod 2 ^ 64) = bytes - r"
      by (simp only: diff small nat_int)
    have pf': "pending f' = drop n (pending f)" by (simp add: f'_def)
    have shorter: "length (pending f') < length (pending f)"
      using n_pos False by (simp add: pf')
    have nofault: "True \<notin> set (read_faults f')"
      using less.prems(2) by (cases "read_faults f") (auto simp: f'_def)
    have lt: "length (pending f') < bytes - r"
      using less.prems(3) r_le by (auto simp: pf' r_def)
    have lt64: "bytes - r < 2 ^ 64" using less.prems(4) by simp
    have IH: "fst (read_loop B f' (bytes - r) (lbuf @ take n (pending f))) =
                 (lbuf @ take n (pending f)) @ pending f' \<and>
              pending (snd (read_loop B f' (bytes - r) (lbuf @ take n (pending f)))) = []"
      by (rule less.hyps [OF shorter less.prems(1) nofault lt lt64])
    have "0 < bytes - r" using lt by simp
    then have step: "read_loop B f bytes lbuf = read_loop B f' (bytes - r) (lbuf @ take n (pending f))"
      using rd r_pos b' n_def by (intro read_loop_step [where r = "int r" and n = n]) simp_all
    show ?thesis using IH by (simp add: step pf')
  qed
qed

lemma read_loop_zero:
  "fst (read_loop B f 0 lbuf) = lbuf \<and> pending (snd (read_loop B f 0 lbuf)) = pending f"
proof -
  obtain r buf f' where rd: "PHYSFS_read f 0 = (r, buf, f')"
    by (cases "PHYSFS_read f 0") auto
  then have "r \<le> 0" "pending f' = pending f"
    by (auto simp: PHYSFS_read_def split: list.splits bool.splits)
  with rd show ?thesis
    by (subst (1 2) read_loop.simps) (simp add: Let_def)
qed

text \<open>
  The count of \<^verbatim>\<open>read(n)\<close> reaches the code as \<^verbatim>\<open>int bytes\<close>. A count from 0 up to
  \<open>2 ^ 31 - 1\<close> is stored unchanged.
\<close>

lemma sint_count:
  assumes "0 \<le> n" and "n < 2 ^ 31"
  shows "sint (word_of_int n :: 32 word) = n"
proof -
  have "signed_take_bit 31 n = n"
    using assms by (intro signed_take_bit_int_eq_self) simp_all
  then show ?thesis
    by (simp add: sint_sbintrunc')
qed

lemma eof_read_number:
  assumes "pending f = []" and "0 \<le> sint bytes"
  shows "seed_file_read B (Some f) (ArgNumber bytes) = (Inr [LNil], Some f)"
  using assms by (simp add: seed_file_read_def check_seed_open_file_def PHYSFS_eof_def)

lemma eof_read_all:
  assumes "pending f = []" and "name = Some ''*a'' \<or> name = None"
  shows "fst (seed_file_read B (Some f) (ArgOption name)) = Inr [LString '''']"
proof -
  have "fst (read_bytes B f bytes) = Inr [LString '''']" for bytes
    using read_loop_at_eof [OF assms(1), of B bytes "[]"]
    by (simp add: read_bytes_def case_prod_beta)
  from this [of "nat (- 1 mod 2 ^ 64)"] assms(2) show ?thesis
    by (auto simp: seed_file_read_def check_seed_open_file_def luaL_checkoption_def
        c_str_def case_prod_beta)
qed

lemma short_read_number:
  assumes "0 < B" and "B < 2 ^ 32"
    and "True \<notin> set (read_faults f)"
    and "pending f \<noteq> []" and "int (length (pending f)) < sint n"
  shows "fst (seed_file_read B (Some f) (ArgNumber n)) = Inr [LString (pending f)] \<and>
         (\<exists>f'. snd (seed_file_read B (Some f) (ArgNumber n)) = Some f' \<and> pending f' = [])"
proof -
  have n_pos: "0 \<le> sint n" using assms(5) by linarith
  have "sint n < 2 ^ 31" using sint_lt [of n] by simp
  then have "sint n < 2 ^ 64" by (rule less_trans) simp
  then have conv: "sint n mod 2 ^ 64 = sint n" using n_pos by simp
  define bytes where "bytes = nat (sint n)"
  have "length (pending f) < bytes" using assms(5) by (simp add: bytes_def)
  moreover have "bytes < 2 ^ 64" using \<open>sint n < 2 ^ 64\<close> n_pos by (simp add: bytes_def nat_less_iff)
  moreover have "0 < B mod 2 ^ 32" using assms(1,2) by simp
  ultimately have loop: "fst (read_loop B f bytes []) = pending f"
      "pending (snd (read_loop B f bytes [])) = []"
    using read_loop_short [of B f bytes "[]"] assms(3) by simp_all
  have "seed_file_read B (Some f) (ArgNumber n) =
      (Inr [LString (pending f)], Some (snd (read_loop B f bytes [])))"
    using assms(4) n_pos loop(1) conv
    by (simp add: seed_file_read_def check_seed_open_file_def PHYSFS_eof_def read_bytes_def
        case_prod_beta bytes_def)
  with loop(2) show ?thesis by simp
qed

section \<open>Claims on the file handle\<close>

text \<open>
  Claim C4, as amended. For every open handle at end of stream, whatever its coming read
  failures, \<^verbatim>\<open>read(n)\<close> with a count \<open>0 < n < 2 ^ 31\<close> (one that the C \<^verbatim>\<open>int\<close> holding
  it can store) returns nil and leaves the handle as it is, while \<^verbatim>\<open>read("*a")\<close> and
  \<^verbatim>\<open>read()\<close> return the empty string, not nil.
\<close>

theorem read_at_end_of_stream:
  assumes "pending f = []" and "0 < n" and "n < 2 ^ 31"
  shows "seed_file_read B (Some f) (ArgNumber (word_of_int n)) = (Inr [LNil], Some f) \<and>
         fst (seed_file_read B (Some f) (ArgOption (Some ''*a''))) = Inr [LString ''''] \<and>
         fst (seed_file_read B (Some f) (ArgOption None)) = Inr [LString '''']"
proof -
  have "0 \<le> sint (word_of_int n :: 32 word)"
    using assms(2,3) by (simp add: sint_count)
  then have "seed_file_read B (Some f) (ArgNumber (word_of_int n)) = (Inr [LNil], Some f)"
    using assms(1) by (intro eof_read_number)
  moreover have "fst (seed_file_read B (Some f) (ArgOption (Some ''*a''))) = Inr [LString '''']"
    using assms(1) by (intro eof_read_all) simp_all
  moreover have "fst (seed_file_read B (Some f) (ArgOption None)) = Inr [LString '''']"
    using assms(1) by (intro eof_read_all) simp_all
  ultimately show ?thesis by (intro conjI)
qed

text \<open>The amended claim C4 at an exhausted handle, \<^verbatim>\<open>read(10)\<close> and \<^verbatim>\<open>read("*a")\<close>.\<close>

theorem read_at_end_of_stream_witness:
  "seed_file_read 8192
      (Some \<lparr>pending = [], read_faults = [], close_fails = False, last_error = []\<rparr>)
      (ArgNumber (word_of_int 10)) =
     (Inr [LNil], Some \<lparr>pending = [], read_faults = [], close_fails = False, last_error = []\<rparr>) \<and>
   fst (seed_file_read 8192
      (Some \<lparr>pending = [], read_faults = [], close_fails = False, last_error = []\<rparr>)
      (ArgOption (Some ''*a''))) = Inr [LString ''''] \<and>
   fst (seed_file_read 8192
      (Some \<lparr>pending = [], read_faults = [], close_fails = False, last_error = []\<rparr>)
      (ArgOption None)) = Inr [LString '''']"
  by (rule read_at_end_of_stream) simp_all

text \<open>
  Claim C4 as stated fails for a count the \<^verbatim>\<open>int\<close> cannot store: at end of stream
  \<^verbatim>\<open>read(2147483648)\<close> is narrowed to a negative \<^verbatim>\<open>bytes\<close>, and the argument check, which
  comes before the end-of-file test, raises.
\<close>

theorem read_at_end_of_stream_counterexample:
  "seed_file_read 8192
      (Some \<lparr>pending = [], read_faults = [], close_fails = False, last_error = []\<rparr>)
      (ArgNumber (word_of_int 2147483648)) =
     (Inl (ArgError 2 ''negative number of bytes''),
      Some \<lparr>pending = [], read_faults = [], close_fails = False, last_error = []\<rparr>)"
  by (simp add: seed_file_read_def check_seed_open_file_def)

text \<open>
  Claim C5, as amended. For every open handle with \<open>r\<close> bytes left, \<open>0 < r < n < 2 ^ 31\<close>,
  whose reads do not fail, and a buffer size \<open>0 < LUAL_BUFFERSIZE < 2 ^ 32\<close>,
  \<^verbatim>\<open>read(n)\<close> returns exactly the \<open>r\<close> bytes left, and the next \<^verbatim>\<open>read(n')\<close> with
  \<open>0 < n' < 2 ^ 31\<close> returns nil.
\<close>

theorem short_read_then_nil:
  assumes "0 < B" and "B < 2 ^ 32"
    and "True \<notin> set (read_faults f)"
    and "pending f \<noteq> []" and "int (length (pending f)) < n" and "n < 2 ^ 31"
    and "0 < n'" and "n' < 2 ^ 31"
  shows "fst (seed_file_read B (Some f) (ArgNumber (word_of_int n))) =
           Inr [LString (pending f)] \<and>
         fst (seed_file_read B (snd (seed_file_read B (Some f) (ArgNumber (word_of_int n))))
               (ArgNumber (word_of_int n'))) = Inr [LNil]"
proof -
  have "0 \<le> n" using assms(5) by linarith
  then have n: "sint (word_of_int n :: 32 word) = n"
    using assms(6) by (rule sint_count)
  have n': "0 \<le> sint (word_of_int n' :: 32 word)"
    using assms(7,8) by (simp add: sint_count)
  have "int (length (pending f)) < sint (word_of_int n :: 32 word)"
    using assms(5) n by simp
  from short_read_number [OF assms(1-4) this]
  obtain f' where first: "fst (seed_file_read B (Some f) (ArgNumber (word_of_int n))) =
        Inr [LString (pending f)]"
      and after: "snd (seed_file_read B (Some f) (ArgNumber (word_of_int n))) = Some f'"
        "pending f' = []"
    by blast
  have "seed_file_read B (Some f') (ArgNumber (word_of_int n')) = (Inr [LNil], Some f')"
    using after(2) n' by (rule eof_read_number)
  with first after(1) show ?thesis by simp
qed

text \<open>The amended claim C5 with three bytes left: \<^verbatim>\<open>read(5)\<close>, then \<^verbatim>\<open>read(5)\<close> again.\<close>

theorem short_read_then_nil_witness:
  "fst (seed_file_read 8192
      (Some \<lparr>pending = ''abc'', read_faults = [], close_fails = False, last_error = []\<rparr>)
      (ArgNumber (word_of_int 5))) = Inr [LString ''abc''] \<and>
   fst (seed_file_read 8192 (snd (seed_file_read 8192
      (Some \<lparr>pending = ''abc'', read_faults = [], close_fails = False, last_error = []\<rparr>)
      (ArgNumber (word_of_int 5)))) (ArgNumber (word_of_int 5))) = Inr [LNil]"
proof -
  have "fst (seed_file_read 8192
      (Some \<lparr>pending = ''abc'', read_faults = [], close_fails = False, last_error = []\<rparr>)
      (ArgNumber (word_of_int 5))) =
        Inr [LString (pending
          \<lparr>pending = ''abc'', read_faults = [], close_fails = False, last_error = []\<rparr>)] \<and>
   fst (seed_file_read 8192 (snd (seed_file_read 8192
      (Some \<lparr>pending = ''abc'', read_faults = [], close_fails = False, last_error = []\<rparr>)
      (ArgNumber (word_of_int 5)))) (ArgNumber (word_of_int 5))) = Inr [LNil]"
    by (rule short_read_then_nil) simp_all
  then show ?thesis
    by (simp only: physfs_file.simps)
qed

text \<open>
  Claim C5 as stated fails for a count the \<^verbatim>\<open>int\<close> cannot store: with the bytes
  \<open>abc\<close> left, \<^verbatim>\<open>read(4294967298)\<close> is narrowed to a read of 2 bytes and returns
  \<open>ab\<close>, and the next \<^verbatim>\<open>read(1)\<close> returns \<open>c\<close>, not nil.
\<close>

theorem short_read_then_nil_counterexample:
  "fst (seed_file_read 8192
      (Some \<lparr>pending = ''abc'', read_faults = [], close_fails = False, last_error = []\<rparr>)
      (ArgNumber (word_of_int 4294967298))) = Inr [LString ''ab''] \<and>
   fst (seed_file_read 8192 (snd (seed_file_read 8192
      (Some \<lparr>pending = ''abc'', read_faults = [], close_fails = False, last_error = []\<rparr>)
      (ArgNumber (word_of_int 4294967298)))) (ArgNumber (word_of_int 1))) = Inr [LString ''c'']"
  by (simp add: seed_file_read_def check_seed_open_file_def PHYSFS_eof_def read_bytes_def
        read_loop.simps PHYSFS_read_def Let_def)

text \<open>
  Claim C9. For every open handle, \<^verbatim>\<open>read(0)\<close> returns nil at end of stream and the empty
  string otherwise; in both cases the handle stays open and no byte is consumed.
\<close>

theorem read_zero_bytes:
  "fst (seed_file_read B (Some f) (ArgNumber 0)) =
     Inr [if pending f = [] then LNil else LString ''''] \<and>
   map_option pending (snd (seed_file_read B (Some f) (ArgNumber 0))) = Some (pending f)"
  using read_loop_zero [of B f "[]"]
  by (simp add: seed_file_read_def check_seed_open_file_def PHYSFS_eof_def read_bytes_def
      case_prod_beta)

text \<open>
  Claim C2 asks that a failed chunk read raises. The code does not: \<^verbatim>\<open>read_bytes\<close> only
  tests \<^verbatim>\<open>read > 0\<close>, so a result of -1 ends the loop and what was collected is returned
  as a string. Three runs: the first \<^verbatim>\<open>PHYSFS_read\<close> fails under \<^verbatim>\<open>read(5)\<close> and under
  \<^verbatim>\<open>read("*a")\<close>; and, with a buffer of 4 bytes, the second one fails under \<^verbatim>\<open>read(6)\<close>.
\<close>

theorem read_failure_returns_data:
  "fst (seed_file_read B
      (Some \<lparr>pending = ''abc'', read_faults = [True], close_fails = False, last_error = ''read error''\<rparr>)
      (ArgNumber 5)) = Inr [LString ''''] \<and>
   fst (seed_file_read B
      (Some \<lparr>pending = ''abc'', read_faults = [True], close_fails = False, last_error = ''read error''\<rparr>)
      (ArgOption (Some ''*a''))) = Inr [LString ''''] \<and>
   fst (seed_file_read 4
      (Some \<lparr>pending = ''abcdef'', read_faults = [False, True], close_fails = False, last_error = ''read error''\<rparr>)
      (ArgNumber 6)) = Inr [LString ''abcd'']"
  by (simp add: seed_file_read_def check_seed_open_file_def PHYSFS_eof_def read_bytes_def
        luaL_checkoption_def c_str_def read_loop.simps PHYSFS_read_def Let_def)

text \<open>
  Claim C6. On an open handle \<^verbatim>\<open>close()\<close> returns true and nulls the stored descriptor
  when \<^verbatim>\<open>PHYSFS_close\<close> succeeds; after that, \<^verbatim>\<open>close()\<close> and \<^verbatim>\<open>read\<close> with any argument
  raise the closed-handle error. When \<^verbatim>\<open>PHYSFS_close\<close> fails, \<^verbatim>\<open>close()\<close> returns nil
  and the message, and the descriptor stays.
\<close>

theorem close_then_use:
  "(\<not> close_fails f \<longrightarrow>
      seed_file_close (Some f) = (Inr [LBoolean True], None) \<and>
      fst (seed_file_close (snd (seed_file_close (Some f)))) =
        Inl (LuaError ''attempt to use a closed file'') \<and>
      fst (seed_file_read B (snd (seed_file_close (Some f))) arg) =
        Inl (LuaError ''attempt to use a closed file'')) \<and>
   (close_fails f \<longrightarrow>
      seed_file_close (Some f) = (Inr [LNil, LString (last_error f)], Some f))"
  by (simp add: seed_file_close_def seed_file_read_def check_seed_open_file_def PHYSFS_close_def)

text \<open>Claim C6 at a handle whose close succeeds and at one whose close fails.\<close>

theorem close_then_use_witness:
  "seed_file_close (Some \<lparr>pending = ''abc'', read_faults = [], close_fails = False, last_error = []\<rparr>) =
     (Inr [LBoolean True], None) \<and>
   fst (seed_file_close (snd (seed_file_close
     (Some \<lparr>pending = ''abc'', read_faults = [], close_fails = False, last_error = []\<rparr>)))) =
     Inl (LuaError ''attempt to use a closed file'') \<and>
   fst (seed_file_read 8192 (snd (seed_file_close
     (Some \<lparr>pending = ''abc'', read_faults = [], close_fails = False, last_error = []\<rparr>)))
     (ArgNumber 1)) = Inl (LuaError ''attempt to use a closed file'') \<and>
   seed_file_close (Some \<lparr>pending = ''abc'', read_faults = [], close_fails = True,
       last_error = ''busy''\<rparr>) =
     (Inr [LNil, LString ''busy''],
      Some \<lparr>pending = ''abc'', read_faults = [], close_fails = True, last_error = ''busy''\<rparr>)"
proof -
  let ?ok = "\<lparr>pending = ''abc'', read_faults = [], close_fails = False, last_error = []\<rparr>"
  let ?bad = "\<lparr>pending = ''abc'', read_faults = [], close_fails = True, last_error = ''busy''\<rparr>"
  have ok: "\<not> close_fails ?ok" and bad: "close_fails ?bad"
    by simp_all
  note succeeds = close_then_use [of ?ok 8192 "ArgNumber 1", THEN conjunct1, THEN mp, OF ok]
  note fails = close_then_use [of ?bad 8192 "ArgNumber 1", THEN conjunct2, THEN mp, OF bad]
  have "last_error ?bad = ''busy''"
    by simp
  with fails have fails': "seed_file_close (Some ?bad) = (Inr [LNil, LString ''busy''], Some ?bad)"
    by (simp only:)
  from succeeds fails' show ?thesis
    by blast
qed

section \<open>Claim on the chunk reader\<close>

text \<open>
  When \<^verbatim>\<open>BUFSIZ\<close> does not exceed \<^verbatim>\<open>LUAL_BUFFERSIZE\<close>, a pull stays within the buffer.
\<close>

lemma reader_within_capacity:
  assumes "BUFSIZ \<le> LUAL_BUFFERSIZE" and "length (buffer rd) = LUAL_BUFFERSIZE"
    and "reader BUFSIZ rd = Inr (sz, rd')"
  shows "sz \<le> LUAL_BUFFERSIZE \<and> length (buffer rd') = LUAL_BUFFERSIZE"
proof -
  have "BUFSIZ mod 2 ^ 32 \<le> BUFSIZ" by simp
  then have "BUFSIZ mod 2 ^ 32 \<le> LUAL_BUFFERSIZE" using assms(1) by linarith
  then show ?thesis
    using assms(2,3)
    by (auto simp: reader_def PHYSFS_read_def min_def split: list.splits bool.splits if_splits)
qed

text \<open>
  Claim C1 asks that a pull never requests more bytes than the buffer holds. The code
  declares the buffer with \<^verbatim>\<open>LUAL_BUFFERSIZE\<close> bytes and requests \<^verbatim>\<open>BUFSIZ\<close> bytes, two
  macros of two different headers. With a buffer of 4096 bytes, \<^verbatim>\<open>BUFSIZ\<close> 8192 and 8192
  bytes left in the file, one pull requests and stores 8192 bytes.
\<close>

theorem reader_overruns_buffer:
  "reader 8192
     \<lparr>buffer = replicate 4096 CHR ''-'',
      rd_file = \<lparr>pending = replicate 8192 CHR ''x'', read_faults = [], close_fails = False,
               last_error = []\<rparr>\<rparr> =
   Inr (8192,
     \<lparr>buffer = replicate 8192 CHR ''x'',
      rd_file = \<lparr>pending = [], read_faults = [], close_fails = False, last_error = []\<rparr>\<rparr>)"
  by (simp add: reader_def PHYSFS_read_def)

section \<open>Claim on module paths\<close>

lemma luaL_gsub_char:
  "luaL_gsub s [a] [b] = Some (map (\<lambda>c. if c = a then b else c) s)"
proof (induction s)
  case Nil
  show ?case by (subst luaL_gsub.simps) simp
next
  case (Cons c cs)
  show ?case
  proof (cases "c = a")
    case True
    then show ?thesis using Cons.IH by (subst luaL_gsub.simps) simp
  next
    case False
    show ?thesis
    proof (cases "strstr cs [a]")
      case None
      then have "luaL_gsub cs [a] [b] = Some cs"
        by (subst luaL_gsub.simps) simp
      with Cons.IH have "map (\<lambda>c. if c = a then b else c) cs = cs" by simp
      with None False show ?thesis by (subst luaL_gsub.simps) simp
    next
      case (Some k)
      then have "luaL_gsub cs [a] [b] =
          map_option (\<lambda>t. take k cs @ [b] @ t) (luaL_gsub (drop (k + 1) cs) [a] [b])"
        by (subst luaL_gsub.simps) simp
      with Some False Cons.IH show ?thesis
        by (subst luaL_gsub.simps) (auto simp: map_option_case split: option.splits)
    qed
  qed
qed

lemma count_slashes_map:
  "count_list (map (\<lambda>c. if c = CHR ''.'' then CHR ''/'' else c) m) CHR ''/'' =
     count_list m CHR ''.'' + count_list m CHR ''/''"
  by (induction m) auto

text \<open>
  Claim C3, as amended. Path derivation is a function of the identifier alone (of its C
  string, which ends at a first NUL byte): the path is \<open>/\<close>, then the identifier with
  every \<open>.\<close> replaced by \<open>/\<close>, then \<open>.lua\<close>. For an identifier with \<open>k\<close> separators the
  path has \<open>k + 1\<close> characters \<open>/\<close>, the leading one and one for each separator, and one
  more for each \<open>/\<close> the identifier itself contains.
\<close>

theorem to_filename_path:
  "to_filename m =
     Some (''/'' @ map (\<lambda>c. if c = CHR ''.'' then CHR ''/'' else c) (c_str m) @ ''.lua'') \<and>
   count_list (''/'' @ map (\<lambda>c. if c = CHR ''.'' then CHR ''/'' else c) (c_str m) @ ''.lua'')
     CHR ''/'' = Suc (count_list (c_str m) CHR ''.'' + count_list (c_str m) CHR ''/'')"
proof -
  have "to_filename m =
      Some (''/'' @ map (\<lambda>c. if c = CHR ''.'' then CHR ''/'' else c) (c_str m) @ ''.lua'')"
    by (simp add: to_filename_def luaL_gsub_char)
  moreover have "count_list
      (''/'' @ map (\<lambda>c. if c = CHR ''.'' then CHR ''/'' else c) (c_str m) @ ''.lua'')
      CHR ''/'' = Suc (count_list (c_str m) CHR ''.'' + count_list (c_str m) CHR ''/'')"
    by (simp add: count_slashes_map)
  ultimately show ?thesis by (rule conjI)
qed

text \<open>The paths of identifiers with 0, 1 and 3 separators.\<close>

lemma to_filename_examples:
  "to_filename ''init'' = Some ''/init.lua''"
  "to_filename ''game.map'' = Some ''/game/map.lua''"
  "to_filename ''a.b.c.d'' = Some ''/a/b/c/d.lua''"
  by (simp_all add: to_filename_def luaL_gsub_char c_str_def)

text \<open>
  Claim C3 as stated fails: the identifier \<open>foo\<close> has no separator and its path has one
  \<open>/\<close>; the identifier \<open>a/b\<close> has no separator either and its path has two.
\<close>

theorem to_filename_slash_count_counterexample:
  "count_list ''foo'' CHR ''.'' = 0 \<and> to_filename ''foo'' = Some ''/foo.lua'' \<and>
   count_list ''/foo.lua'' CHR ''/'' = 1 \<and>
   count_list ''a/b'' CHR ''.'' = 0 \<and> to_filename ''a/b'' = Some ''/a/b.lua'' \<and>
   count_list ''/a/b.lua'' CHR ''/'' = 2"
  by (simp add: to_filename_def luaL_gsub_char c_str_def)

section \<open>Claim on the resolver chain\<close>

lemma index2adr_top:
  "index2adr (L\<lparr>stack := st @ [a]\<rparr>) (- 1) = Some (length st)"
  "index2adr (L\<lparr>stack := st @ [a, b]\<rparr>) (- 1) = Some (Suc (length st))"
  "index2adr (L\<lparr>stack := st @ [a, b]\<rparr>) (- 2) = Some (length st)"
  "index2adr (L\<lparr>stack := st @ [a, b, c]\<rparr>) (- 2) = Some (Suc (length st))"
  by (simp_all add: index2adr_def)

lemma append_nth_simps:
  "(st @ [a]) ! length st = a"
  "(st @ [a, b]) ! length st = a"
  "(st @ [a, b]) ! Suc (length st) = b"
  "(st @ [a, b, c]) ! Suc (length st) = b"
  by (simp_all add: nth_append)

text \<open>
  Claim C7. In a Lua state where the globals \<^verbatim>\<open>table\<close> and \<^verbatim>\<open>package\<close> are the standard
  library tables (\<^verbatim>\<open>table.insert\<close> the library function, \<^verbatim>\<open>package.loaders\<close> a table),
  registering the resolver turns a chain \<open>A, B, ...\<close> into \<open>A, R, B, ...\<close>: the resolver
  \<open>R\<close> is the second element and the strategies already there keep their order. Nothing
  else of the state changes, and the stack is as it was.
\<close>

theorem resolver_inserted_second:
  assumes "field_of (globals L) ''table'' = LTable rt"
    and "heap L rt = Some tbl"
    and "field_of (hash_part tbl) ''insert'' = LCFunction table_insert"
    and "field_of (globals L) ''package'' = LTable rp"
    and "heap L rp = Some pkg"
    and "field_of (hash_part pkg) ''loaders'' = LTable rl"
    and "heap L rl = Some loaders"
    and "array_part loaders = A # rest"
  shows "init_physfs_loader L =
     Inr (L\<lparr>heap := (heap L)(rl \<mapsto> loaders\<lparr>array_part := A # LCFunction physfs_searcher # rest\<rparr>)\<rparr>)"
proof -
  let ?ins = "LCFunction table_insert"
  have s1: "lua_getglobal ''table'' L = Inr (L\<lparr>stack := stack L @ [LTable rt]\<rparr>)"
    by (simp add: lua_getglobal_def push_def assms)
  have s2: "lua_getfield (- 1) ''insert'' (L\<lparr>stack := stack L @ [LTable rt]\<rparr>) =
      Inr (L\<lparr>stack := stack L @ [LTable rt, ?ins]\<rparr>)"
    by (simp add: lua_getfield_def index2adr_top append_nth_simps push_def assms)
  have s3: "lua_remove (- 2) (L\<lparr>stack := stack L @ [LTable rt, ?ins]\<rparr>) =
      Inr (L\<lparr>stack := stack L @ [?ins]\<rparr>)"
    by (simp add: lua_remove_def index2adr_top)
  have s4: "lua_getglobal ''package'' (L\<lparr>stack := stack L @ [?ins]\<rparr>) =
      Inr (L\<lparr>stack := stack L @ [?ins, LTable rp]\<rparr>)"
    by (simp add: lua_getglobal_def push_def assms)
  have s5: "lua_getfield (- 1) ''loaders'' (L\<lparr>stack := stack L @ [?ins, LTable rp]\<rparr>) =
      Inr (L\<lparr>stack := stack L @ [?ins, LTable rp, LTable rl]\<rparr>)"
    by (simp add: lua_getfield_def index2adr_top append_nth_simps push_def assms)
  have s6: "lua_remove (- 2) (L\<lparr>stack := stack L @ [?ins, LTable rp, LTable rl]\<rparr>) =
      Inr (L\<lparr>stack := stack L @ [?ins, LTable rl]\<rparr>)"
    by (simp add: lua_remove_def index2adr_top)
  have s7: "lua_pushvalue (- 2) (L\<lparr>stack := stack L @ [?ins, LTable rl]\<rparr>) =
      Inr (L\<lparr>stack := stack L @ [?ins, LTable rl, ?ins]\<rparr>)"
    by (simp add: lua_pushvalue_def index2adr_top append_nth_simps push_def)
  have s8: "lua_pushvalue (- 2) (L\<lparr>stack := stack L @ [?ins, LTable rl, ?ins]\<rparr>) =
      Inr (L\<lparr>stack := stack L @ [?ins, LTable rl, ?ins, LTable rl]\<rparr>)"
    by (simp add: lua_pushvalue_def index2adr_top append_nth_simps push_def)
  have s9: "lua_pushnumber 2 (L\<lparr>stack := stack L @ [?ins, LTable rl, ?ins, LTable rl]\<rparr>) =
      Inr (L\<lparr>stack := stack L @ [?ins, LTable rl, ?ins, LTable rl, LNumber 2]\<rparr>)"
    by (simp add: lua_pushnumber_def push_def)
  have s10: "lua_pushcfunction physfs_searcher
        (L\<lparr>stack := stack L @ [?ins, LTable rl, ?ins, LTable rl, LNumber 2]\<rparr>) =
      Inr (L\<lparr>stack := stack L @
        [?ins, LTable rl, ?ins, LTable rl, LNumber 2, LCFunction physfs_searcher]\<rparr>)"
    by (simp add: lua_pushcfunction_def push_def)
  let ?heap' = "(heap L)(rl \<mapsto> loaders\<lparr>array_part := A # LCFunction physfs_searcher # rest\<rparr>)"
  have ins: "insert_at (A # rest) 2 (LCFunction physfs_searcher) =
      A # LCFunction physfs_searcher # rest"
    by (simp add: insert_at_def)
  have s11: "lua_call 3 0 (L\<lparr>stack := stack L @
        [?ins, LTable rl, ?ins, LTable rl, LNumber 2, LCFunction physfs_searcher]\<rparr>) =
      Inr (L\<lparr>stack := stack L @ [?ins, LTable rl], heap := ?heap'\<rparr>)"
    by (simp add: lua_call_def tinsert_def nth_append assms ins Let_def)
  have s12: "lua_pop 2 (L\<lparr>stack := stack L @ [?ins, LTable rl], heap := ?heap'\<rparr>) =
      Inr (L\<lparr>heap := ?heap'\<rparr>)"
    by (simp add: lua_pop_def)
  show ?thesis
    unfolding init_physfs_loader_def
    by (simp only: run.simps s1 s2 s3 s4 s5 s6 s7 s8 s9 s10 s11 s12 sum.case)
qed

text \<open>Claim C7 on the chain \<open>A, B\<close>, which becomes \<open>A, R, B\<close>.\<close>

theorem resolver_inserted_second_witness:
  "init_physfs_loader
     \<lparr>stack = [],
      globals = [(''table'', LTable 0), (''package'', LTable 1)],
      heap = [0 \<mapsto> \<lparr>hash_part = [(''insert'', LCFunction table_insert)], array_part = []\<rparr>,
              1 \<mapsto> \<lparr>hash_part = [(''loaders'', LTable 2)], array_part = []\<rparr>,
              2 \<mapsto> \<lparr>hash_part = [], array_part = [LString ''A'', LString ''B'']\<rparr>]\<rparr> =
   Inr \<lparr>stack = [],
        globals = [(''table'', LTable 0), (''package'', LTable 1)],
        heap = [0 \<mapsto> \<lparr>hash_part = [(''insert'', LCFunction table_insert)], array_part = []\<rparr>,
                1 \<mapsto> \<lparr>hash_part = [(''loaders'', LTable 2)], array_part = []\<rparr>,
                2 \<mapsto> \<lparr>hash_part = [],
                       array_part = [LString ''A'', LCFunction physfs_searcher, LString ''B'']\<rparr>]\<rparr>"
  using resolver_inserted_second
    [of "\<lparr>stack = [],
      globals = [(''table'', LTable 0), (''package'', LTable 1)],
      heap = [0 \<mapsto> \<lparr>hash_part = [(''insert'', LCFunction table_insert)], array_part = []\<rparr>,
              1 \<mapsto> \<lparr>hash_part = [(''loaders'', LTable 2)], array_part = []\<rparr>,
              2 \<mapsto> \<lparr>hash_part = [], array_part = [LString ''A'', LString ''B'']\<rparr>]\<rparr>"
      0 "\<lparr>hash_part = [(''insert'', LCFunction table_insert)], array_part = []\<rparr>"
      1 "\<lparr>hash_part = [(''loaders'', LTable 2)], array_part = []\<rparr>"
      2 "\<lparr>hash_part = [], array_part = [LString ''A'', LString ''B'']\<rparr>"
      "LString ''A''" "[LString ''B'']"]
  by (simp add: field_of_def)

section \<open>Claims on the main program\<close>

text \<open>With a separator that is not empty, \<^verbatim>\<open>basename\<close> returns.\<close>

lemma basename_returns:
  assumes "dirsep \<noteq> []"
  shows "\<exists>name. basename dirsep s = Some name"
proof (induction "length s" arbitrary: s rule: less_induct)
  case less
  show ?case
  proof (cases "strstr s dirsep")
    case None
    then show ?thesis by (subst basename.simps) simp
  next
    case (Some sep)
    from strstr_bound [OF Some] assms have "sep < length s"
      by (cases dirsep) simp_all
    then have "length (drop (Suc sep) s) < length s"
      by simp
    from less [OF this] obtain name where "basename dirsep (drop (Suc sep) s) = Some name"
      by blast
    with Some \<open>sep < length s\<close> show ?thesis
      by (subst basename.simps) simp
  qed
qed

lemma push_loop_drop:
  assumes "1 \<le> i" and "1 \<le> skip"
  shows "push_loop argv skip i pushed = Some (pushed @ drop (nat (i + skip - 1)) argv)"
  using assms
proof (induction argv skip i pushed rule: push_loop.induct)
  case (1 argv skip i pushed)
  show ?case
  proof (cases "i \<le> int (length argv) - skip")
    case True
    define j where "j = nat (i + skip - 1)"
    have j: "int j = i + skip - 1" "j < length argv"
      using True "1.prems" by (simp_all add: j_def)
    have next_j: "nat (i + 1 + skip - 1) = Suc j"
      using "1.prems" by (simp add: j_def)
    have "push_loop argv skip (i + 1) (pushed @ [argv ! j]) =
        Some ((pushed @ [argv ! j]) @ drop (Suc j) argv)"
      using "1.IH" [OF True] True "1.prems" j next_j by (simp add: j_def)
    then have "push_loop argv skip i pushed = Some ((pushed @ [argv ! j]) @ drop (Suc j) argv)"
      using True "1.prems" by (subst push_loop.simps) (simp add: j_def)
    then show ?thesis
      using j(2) by (simp add: Cons_nth_drop_Suc flip: j_def)
  next
    case False
    then have "length argv \<le> nat (i + skip - 1)"
      using "1.prems" by simp
    with False show ?thesis
      by (subst push_loop.simps) simp
  qed
qed

lemma arg_loop_lookup:
  "arg_loop argv skip i tbl k =
     (if int i - skip + 1 \<le> k \<and> k \<le> int (length argv) - skip
      then Some (argv ! nat (k + skip - 1)) else tbl k)"
proof (induction argv skip i tbl rule: arg_loop.induct)
  case (1 argv skip i tbl)
  show ?case
  proof (cases "i < length argv")
    case True
    have "arg_loop argv skip i tbl k =
        arg_loop argv skip (Suc i) (tbl(int i - skip + 1 \<mapsto> argv ! i)) k"
      using True by (subst arg_loop.simps) simp
    also have "\<dots> = (if int (Suc i) - skip + 1 \<le> k \<and> k \<le> int (length argv) - skip
        then Some (argv ! nat (k + skip - 1)) else (tbl(int i - skip + 1 \<mapsto> argv ! i)) k)"
      by (rule "1.IH" [OF True])
    also have "\<dots> = (if int i - skip + 1 \<le> k \<and> k \<le> int (length argv) - skip
        then Some (argv ! nat (k + skip - 1)) else tbl k)"
      using True by (auto simp: nat_eq_iff)
    finally show ?thesis .
  next
    case False
    then show ?thesis
      by (subst arg_loop.simps) auto
  qed
qed

lemma main_self_mount:
  assumes "init_ok env" and "basename (dir_separator env) argv0 = Some exe"
    and "mountable env (base_dir env @ exe)"
  shows "main env (argv0 # rest) =
     Run \<lparr>mounted = base_dir env @ exe, skip_arg = 1,
          arg_table = arg_loop (argv0 # rest) 1 0 Map.empty, forwarded = rest\<rparr>"
proof -
  have "push_loop (argv0 # rest) 1 1 [] = Some rest"
    using push_loop_drop [of 1 1 "argv0 # rest" "[]"] by simp
  then show ?thesis
    using assms by (simp add: main_def)
qed

lemma main_fallback_mount:
  assumes "init_ok env" and "basename (dir_separator env) argv0 = Some exe"
    and "\<not> mountable env (base_dir env @ exe)" and "mountable env archive"
  shows "main env (argv0 # archive # rest) =
     Run \<lparr>mounted = archive, skip_arg = 2,
          arg_table = arg_loop (argv0 # archive # rest) 2 0 Map.empty, forwarded = rest\<rparr>"
proof -
  have "push_loop (argv0 # archive # rest) 2 1 [] = Some rest"
    using push_loop_drop [of 1 2 "argv0 # archive # rest" "[]"] by simp
  then show ?thesis
    using assms by (simp add: main_def)
qed

lemma main_no_archive:
  assumes "init_ok env" and "basename (dir_separator env) argv0 = Some exe"
    and "\<not> mountable env (base_dir env @ exe)"
    and "rest = [] \<or> \<not> mountable env (hd rest)"
  shows "main env (argv0 # rest) = Exit 1"
  using assms by (cases rest) (auto simp: main_def)

text \<open>
  Claim C8. Take one run whose self-mount fails while \<^verbatim>\<open>argv[1]\<close> names a mountable
  archive, and one run whose self-mount succeeds, both with the user arguments \<open>user\<close>
  behind the consumed ones. The first mounts the fallback archive and skips 2 arguments,
  the second skips 1, and the entry chunk is passed the same arguments \<open>user\<close>, in
  order, in both.
\<close>

theorem fallback_mount_same_arguments:
  assumes "init_ok env" and "basename (dir_separator env) argv0 = Some exe"
    and "\<not> mountable env (base_dir env @ exe)" and "mountable env archive"
    and "init_ok env'" and "basename (dir_separator env') argv0' = Some exe'"
    and "mountable env' (base_dir env' @ exe')"
  shows "\<exists>fb sm. main env (argv0 # archive # user) = Run fb \<and>
           main env' (argv0' # user) = Run sm \<and>
           mounted fb = archive \<and> mounted sm = base_dir env' @ exe' \<and>
           skip_arg sm = 1 \<and> skip_arg fb = 2 \<and>
           forwarded fb = user \<and> forwarded sm = user"
  using main_fallback_mount [OF assms(1-4), of user] main_self_mount [OF assms(5-7), of user]
  by simp

text \<open>Claim C8 on \<^verbatim>\<open>./bin/seed data.zip a b\<close> and \<^verbatim>\<open>./bin/seed a b\<close>.\<close>

theorem fallback_mount_same_arguments_witness:
  "\<exists>fb sm.
     main \<lparr>init_ok = True, base_dir = ''/opt/game/'', dir_separator = ''/'',
           mountable = (\<lambda>p. p = ''data.zip'')\<rparr>
       [''./bin/seed'', ''data.zip'', ''a'', ''b''] = Run fb \<and>
     main \<lparr>init_ok = True, base_dir = ''/opt/game/'', dir_separator = ''/'',
           mountable = (\<lambda>p. p = ''/opt/game/seed'')\<rparr>
       [''./bin/seed'', ''a'', ''b''] = Run sm \<and>
     mounted fb = ''data.zip'' \<and> mounted sm = ''/opt/game/seed'' \<and>
     skip_arg sm = 1 \<and> skip_arg fb = 2 \<and>
     forwarded fb = [''a'', ''b''] \<and> forwarded sm = [''a'', ''b'']"
proof -
  let ?fb = "\<lparr>init_ok = True, base_dir = ''/opt/game/'', dir_separator = ''/'',
           mountable = (\<lambda>p. p = ''data.zip'')\<rparr>"
  let ?sm = "\<lparr>init_ok = True, base_dir = ''/opt/game/'', dir_separator = ''/'',
           mountable = (\<lambda>p. p = ''/opt/game/seed'')\<rparr>"
  have b: "basename ''/'' ''./bin/seed'' = Some ''seed''"
    by (simp add: basename.simps)
  show ?thesis
    using fallback_mount_same_arguments
      [of ?fb "''./bin/seed''" "''seed''" "''data.zip''" ?sm "''./bin/seed''" "''seed''"
        "[''a'', ''b'']"] b
    by simp
qed

text \<open>
  Claim C10. The global table \<^verbatim>\<open>arg\<close> also holds the skipped arguments: after a
  self-mount \<^verbatim>\<open>arg[0]\<close> is the invocation path; after a fallback mount \<^verbatim>\<open>arg[0]\<close> is the
  archive path and \<^verbatim>\<open>arg[-1]\<close> the invocation path. The user arguments are at the
  indices 1 and up in both cases, and no other index is set.
\<close>

theorem arg_table_leading_arguments:
  assumes "init_ok env" and "basename (dir_separator env) argv0 = Some exe"
    and "\<not> mountable env (base_dir env @ exe)" and "mountable env archive"
    and "init_ok env'" and "basename (dir_separator env') argv0' = Some exe'"
    and "mountable env' (base_dir env' @ exe')"
  shows "\<exists>fb sm. main env (argv0 # archive # user) = Run fb \<and>
           main env' (argv0' # user) = Run sm \<and>
           arg_table sm 0 = Some argv0' \<and>
           arg_table fb 0 = Some archive \<and> arg_table fb (- 1) = Some argv0 \<and>
           (\<forall>k < length user.
              arg_table sm (int k + 1) = Some (user ! k) \<and> arg_table fb (int k + 1) = Some (user ! k)) \<and>
           (\<forall>j. j < 0 \<or> int (length user) < j \<longrightarrow> arg_table sm j = None) \<and>
           (\<forall>j. j < - 1 \<or> int (length user) < j \<longrightarrow> arg_table fb j = None)"
proof -
  have user_sm: "arg_loop (argv0' # user) 1 0 Map.empty (int k + 1) = Some (user ! k)"
    if "k < length user" for k
    using that by (simp add: arg_loop_lookup nat_add_distrib)
  have user_fb: "arg_loop (argv0 # archive # user) 2 0 Map.empty (int k + 1) = Some (user ! k)"
    if "k < length user" for k
    using that by (simp add: arg_loop_lookup nat_add_distrib)
  show ?thesis
    using main_fallback_mount [OF assms(1-4), of user] main_self_mount [OF assms(5-7), of user]
      user_sm user_fb
    by (simp add: arg_loop_lookup)
qed

text \<open>Claim C10 on \<^verbatim>\<open>./bin/seed data.zip a b\<close> and \<^verbatim>\<open>./bin/seed a b\<close>.\<close>

theorem arg_table_leading_arguments_witness:
  "\<exists>fb sm.
     main \<lparr>init_ok = True, base_dir = ''/opt/game/'', dir_separator = ''/'',
           mountable = (\<lambda>p. p = ''data.zip'')\<rparr>
       [''./bin/seed'', ''data.zip'', ''a'', ''b''] = Run fb \<and>
     main \<lparr>init_ok = True, base_dir = ''/opt/game/'', dir_separator = ''/'',
           mountable = (\<lambda>p. p = ''/opt/game/seed'')\<rparr>
       [''./bin/seed'', ''a'', ''b''] = Run sm \<and>
     arg_table sm 0 = Some ''./bin/seed'' \<and>
     arg_table fb 0 = Some ''data.zip'' \<and> arg_table fb (- 1) = Some ''./bin/seed'' \<and>
     arg_table sm 1 = Some ''a'' \<and> arg_table fb 1 = Some ''a'' \<and>
     arg_table sm 2 = Some ''b'' \<and> arg_table fb 2 = Some ''b'' \<and>
     arg_table sm 3 = None \<and> arg_table fb 3 = None \<and> arg_table sm (- 1) = None \<and> arg_table fb (- 2) = None"
proof -
  let ?E = "\<lparr>init_ok = True, base_dir = ''/opt/game/'', dir_separator = ''/'',
           mountable = (\<lambda>p. p = ''data.zip'')\<rparr>"
  let ?E' = "\<lparr>init_ok = True, base_dir = ''/opt/game/'', dir_separator = ''/'',
           mountable = (\<lambda>p. p = ''/opt/game/seed'')\<rparr>"
  have b: "basename (dir_separator ?E) ''./bin/seed'' = Some ''seed''"
      "basename (dir_separator ?E') ''./bin/seed'' = Some ''seed''"
    by (simp_all add: basename.simps)
  have "\<exists>fb sm. main ?E (''./bin/seed'' # ''data.zip'' # [''a'', ''b'']) = Run fb \<and>
           main ?E' (''./bin/seed'' # [''a'', ''b'']) = Run sm \<and>
           arg_table sm 0 = Some ''./bin/seed'' \<and>
           arg_table fb 0 = Some ''data.zip'' \<and> arg_table fb (- 1) = Some ''./bin/seed'' \<and>
           (\<forall>k < length [''a'', ''b''].
              arg_table sm (int k + 1) = Some ([''a'', ''b''] ! k) \<and>
              arg_table fb (int k + 1) = Some ([''a'', ''b''] ! k)) \<and>
           (\<forall>j. j < 0 \<or> int (length [''a'', ''b'']) < j \<longrightarrow> arg_table sm j = None) \<and>
           (\<forall>j. j < - 1 \<or> int (length [''a'', ''b'']) < j \<longrightarrow> arg_table fb j = None)"
    by (rule arg_table_leading_arguments [OF _ b(1) _ _ _ b(2)]) simp_all
  then obtain fb sm where run: "main ?E [''./bin/seed'', ''data.zip'', ''a'', ''b''] = Run fb"
      "main ?E' [''./bin/seed'', ''a'', ''b''] = Run sm"
    and zero: "arg_table sm 0 = Some ''./bin/seed''" "arg_table fb 0 = Some ''data.zip''"
      "arg_table fb (- 1) = Some ''./bin/seed''"
    and user: "\<forall>k < length [''a'', ''b''].
              arg_table sm (int k + 1) = Some ([''a'', ''b''] ! k) \<and>
              arg_table fb (int k + 1) = Some ([''a'', ''b''] ! k)"
    and none: "\<forall>j. j < 0 \<or> int (length [''a'', ''b'']) < j \<longrightarrow> arg_table sm j = None"
      "\<forall>j. j < - 1 \<or> int (length [''a'', ''b'']) < j \<longrightarrow> arg_table fb j = None"
    by blast
  have k0: "(0::nat) < length [''a'', ''b'']" and k1: "(1::nat) < length [''a'', ''b'']"
    by simp_all
  from user [rule_format, OF k0] user [rule_format, OF k1]
  have "arg_table sm 1 = Some ''a'' \<and> arg_table fb 1 = Some ''a''"
    "arg_table sm 2 = Some ''b'' \<and> arg_table fb 2 = Some ''b''"
    by simp_all
  moreover from none have "arg_table sm 3 = None" "arg_table fb 3 = None" "arg_table sm (- 1) = None"
      "arg_table fb (- 2) = None"
    by simp_all
  ultimately
  have "arg_table sm 1 = Some ''a''" "arg_table fb 1 = Some ''a''" "arg_table sm 2 = Some ''b''" "arg_table fb 2 = Some ''b''"
    "arg_table sm 3 = None" "arg_table fb 3 = None" "arg_table sm (- 1) = None" "arg_table fb (- 2) = None"
    by simp_all
  with run zero show ?thesis
    by blast
qed

end
